theory Spec2Isabelle
  imports Complex_Main "HOL-Library.Signed_Division" "HOL-Library.Word"
begin

unbundle bit_operations_syntax

section \<open>Machine integers of \<^verbatim>\<open>include/util/math.hpp\<close>\<close>

text \<open>
  The C++ type \<^verbatim>\<open>int\<close> is a 32-bit two's complement integer. Its values are
  modelled as HOL integers inside the range \<open>INT_MIN .. INT_MAX\<close>; an operation whose
  C++ behaviour is undefined (division by zero, signed overflow) returns \<open>None\<close>.
\<close>

definition INT_MIN :: int where
  "INT_MIN = - (2 ^ 31)"

definition INT_MAX :: int where
  "INT_MAX = 2 ^ 31 - 1"

definition is_int :: "int \<Rightarrow> bool" where
  "is_int n = (INT_MIN \<le> n \<and> n \<le> INT_MAX)"

text \<open>\<^verbatim>\<open>a % b\<close>: the remainder of the division that truncates towards zero.\<close>

definition c_rem :: "int \<Rightarrow> int \<Rightarrow> int option" where
  "c_rem a b = (if b = 0 \<or> (a = INT_MIN \<and> b = - 1) then None else Some (a smod b))"

text \<open>\<^verbatim>\<open>a + b\<close> on \<^verbatim>\<open>int\<close>: undefined when the sum leaves the range.\<close>

definition c_add :: "int \<Rightarrow> int \<Rightarrow> int option" where
  "c_add a b = (if is_int (a + b) then Some (a + b) else None)"

text \<open>
  \<^verbatim>\<open>
  inline int clampi(int x, int min, int max) {
      if (x < min) return min;
      if (x > max) return max;
      return x;
  }
  \<close>
\<close>

definition clampi :: "int \<Rightarrow> int \<Rightarrow> int \<Rightarrow> int" where
  "clampi x mn mx = (if x < mn then mn else if x > mx then mx else x)"

text \<open>
  \<^verbatim>\<open>
  inline int eucmodi(int a, int base) {
      int mod = a % base;
      return (mod >= 0) ? mod : mod + base;
  }
  \<close>
\<close>

definition eucmodi :: "int \<Rightarrow> int \<Rightarrow> int option" where
  "eucmodi a base =
     (case c_rem a base of
        None \<Rightarrow> None
      | Some md \<Rightarrow> if md \<ge> 0 then Some md else c_add md base)"

text \<open>
  \<^verbatim>\<open>
  inline int log2i(int n) {
      int i = 0;
      while (n >>= 1) {
          i++;
      }
      return i;
  }
  \<close>
  The right shift of a signed value is the arithmetic one (\<open>n div 2\<close>, rounding towards
  minus infinity), so a negative \<open>n\<close> never reaches zero: the loop is a partial
  function, and \<open>None\<close> stands for a run that does not return a value.
\<close>

partial_function (option) log2i_loop :: "int \<Rightarrow> int \<Rightarrow> int option" where
  "log2i_loop n i =
     (let n' = n div 2 in
      if n' \<noteq> 0 then (if is_int (i + 1) then log2i_loop n' (i + 1) else None)
      else Some i)"

definition log2i :: "int \<Rightarrow> int option" where
  "log2i n = log2i_loop n 0"

section \<open>Float functions\<close>

text \<open>
  A \<^verbatim>\<open>float\<close> is modelled by a real number: the functions below only compare, add,
  subtract and multiply, and the model takes these operations on finite values that are
  not NaN, without rounding. The one function that looks at the encoding of a float,
  \<^verbatim>\<open>sgnf\<close>, is modelled on the 32-bit pattern further down.
\<close>

type_synonym float = real

text \<open>\<^verbatim>\<open>fminf\<close> and \<^verbatim>\<open>fmaxf\<close> of the C library, on numbers.\<close>

definition fminf :: "float \<Rightarrow> float \<Rightarrow> float" where
  "fminf a b = min a b"

definition fmaxf :: "float \<Rightarrow> float \<Rightarrow> float" where
  "fmaxf a b = max a b"

text \<open>
  \<^verbatim>\<open>
  inline float clampf(float x, float min, float max) {
      if (x < min) return min;
      if (x > max) return max;
      return x;
  }
  inline float clamp2f(float x, float min, float max) {
      return clampf(x, fminf(min, max), fmaxf(min, max));
  }
  inline float crossf(float a, float b, float frac) {
      return a + frac * (b - a);
  }
  \<close>
\<close>

definition clampf :: "float \<Rightarrow> float \<Rightarrow> float \<Rightarrow> float" where
  "clampf x mn mx = (if x < mn then mn else if x > mx then mx else x)"

definition clamp2f :: "float \<Rightarrow> float \<Rightarrow> float \<Rightarrow> float" where
  "clamp2f x mn mx = clampf x (fminf mn mx) (fmaxf mn mx)"

definition crossf :: "float \<Rightarrow> float \<Rightarrow> float \<Rightarrow> float" where
  "crossf a b fr = a + fr * (b - a)"

subsection \<open>Array interpolation\<close>

text \<open>
  \<^verbatim>\<open>
  inline float interpf(const float *p, float x) {
      int xi = x;
      float xf = x - xi;
      return crossf(p[xi], p[xi+1], xf);
  }
  \<close>
  The array behind \<^verbatim>\<open>p\<close> is a list and every read is checked. The conversion of a
  float to \<^verbatim>\<open>int\<close> truncates towards zero and is undefined when the truncated value
  is not an \<^verbatim>\<open>int\<close>.
\<close>

datatype fault = OutOfBounds | Undefined

definition float_to_int :: "float \<Rightarrow> fault + int" where
  "float_to_int x =
     (let t = (if 0 \<le> x then \<lfloor>x\<rfloor> else \<lceil>x\<rceil>)
      in if is_int t then Inr t else Inl Undefined)"

definition load :: "float list \<Rightarrow> int \<Rightarrow> fault + float" where
  "load p i = (if 0 \<le> i \<and> i < int (length p) then Inr (p ! nat i) else Inl OutOfBounds)"

definition interpf :: "float list \<Rightarrow> float \<Rightarrow> fault + float" where
  "interpf p x =
     (case float_to_int x of
        Inl e \<Rightarrow> Inl e
      | Inr xi \<Rightarrow>
          let xf = x - of_int xi in
          (case load p xi of
             Inl e \<Rightarrow> Inl e
           | Inr a \<Rightarrow>
               (case c_add xi 1 of
                  None \<Rightarrow> Inl Undefined
                | Some xi1 \<Rightarrow>
                    (case load p xi1 of
                       Inl e \<Rightarrow> Inl e
                     | Inr b \<Rightarrow> Inr (crossf a b xf)))))"

subsection \<open>Complex multiplication through pointers\<close>

text \<open>
  \<^verbatim>\<open>
  inline void cmultf(float *cr, float *ci, float ar, float ai, float br, float bi) {
      *cr = ar * br - ai * bi;
      *ci = ar * bi + ai * br;
  }
  \<close>
  The two results are written through pointers, so the memory is explicit: a map from
  addresses to floats, updated by the two assignments in order. The four operands are
  passed by value. \<open>cmultf_inplace\<close> is the call of the comment in the source,
  \<^verbatim>\<open>cmultf(&ar, &ai, ar, ai, br, bi)\<close>, with the first operand stored at \<open>pr\<close> and \<open>pim\<close>.
\<close>

type_synonym addr = nat
type_synonym memory = "addr \<Rightarrow> float"

definition cmultf :: "memory \<Rightarrow> addr \<Rightarrow> addr \<Rightarrow> float \<Rightarrow> float \<Rightarrow> float \<Rightarrow> float \<Rightarrow> memory" where
  "cmultf m cr ci ar ai br bi =
     (let m1 = m(cr := ar * br - ai * bi)
      in m1(ci := ar * bi + ai * br))"

definition cmultf_inplace :: "memory \<Rightarrow> addr \<Rightarrow> addr \<Rightarrow> float \<Rightarrow> float \<Rightarrow> memory" where
  "cmultf_inplace m pr pim br bi = cmultf m pr pim (m pr) (m pim) br bi"

section \<open>Vectors and rectangles\<close>








section \<open>The sign of a float\<close>

text \<open>
  \<^verbatim>\<open>
  inline float sgnf(float x) {
      return copysignf(1.f, x);
  }
  \<close>
  \<^verbatim>\<open>copysignf\<close> reads the sign bit of its second argument, which the zeros and the NaNs
  carry too, so here a float is its IEEE-754 binary32 pattern: bit 31 is the sign, bits
  30 to 23 the biased exponent, bits 22 to 0 the fraction.
\<close>

type_synonym float32 = "32 word"

definition f32_sign :: "float32 \<Rightarrow> bool" where
  "f32_sign w = bit w 31"

definition f32_exponent :: "float32 \<Rightarrow> nat" where
  "f32_exponent w = unat (drop_bit 23 w AND 0xFF)"

definition f32_fraction :: "float32 \<Rightarrow> nat" where
  "f32_fraction w = unat (w AND 0x7FFFFF)"

definition f32_is_nan :: "float32 \<Rightarrow> bool" where
  "f32_is_nan w = (f32_exponent w = 255 \<and> f32_fraction w \<noteq> 0)"

text \<open>The number that a finite pattern stands for.\<close>

definition f32_value :: "float32 \<Rightarrow> real" where
  "f32_value w =
     (let e = f32_exponent w; f = f32_fraction w;
          mag = (if e = 0 then real f / 2 ^ 23 * 2 / 2 ^ 127
                 else (1 + real f / 2 ^ 23) * 2 ^ e / 2 ^ 127)
      in if f32_sign w then - mag else mag)"

text \<open>
  The comparison \<^verbatim>\<open>a < b\<close> of two floats: false when either is a NaN; otherwise the
  patterns compare as sign-magnitude integers, so that the two zeros are equal and the
  infinities are the extremes.
\<close>

definition f32_key :: "float32 \<Rightarrow> int" where
  "f32_key w = (if f32_sign w then - uint (w AND 0x7FFFFFFF) else uint (w AND 0x7FFFFFFF))"

definition f32_less :: "float32 \<Rightarrow> float32 \<Rightarrow> bool" where
  "f32_less a b = (\<not> f32_is_nan a \<and> \<not> f32_is_nan b \<and> f32_key a < f32_key b)"

definition f32_pos_zero :: float32 where
  "f32_pos_zero = 0x00000000"

definition f32_neg_zero :: float32 where
  "f32_neg_zero = 0x80000000"

definition f32_one :: float32 where
  "f32_one = 0x3F800000"

definition f32_neg_one :: float32 where
  "f32_neg_one = 0xBF800000"

text \<open>\<^verbatim>\<open>copysignf(a, b)\<close>: the magnitude of \<open>a\<close> with the sign bit of \<open>b\<close>.\<close>

definition copysignf :: "float32 \<Rightarrow> float32 \<Rightarrow> float32" where
  "copysignf a b = (a AND 0x7FFFFFFF) OR (b AND 0x80000000)"

definition sgnf :: "float32 \<Rightarrow> float32" where
  "sgnf x = copysignf f32_one x"

section \<open>Overlap of open intervals\<close>



section \<open>Integer functions: properties\<close>

lemma smod_pos_base_bounds:
  fixes a b :: int
  assumes "0 < b"
  shows "- b < a smod b" and "a smod b < b"
proof -
  have "a smod b \<in> {- \<bar>b\<bar> + 1..\<bar>b\<bar> - 1}"
    by (rule smod_int_range) (use assms in simp)
  then show "- b < a smod b" and "a smod b < b"
    using assms by auto
qed

lemma smod_cong_base:
  fixes a b :: int
  shows "b dvd (a smod b - a)"
proof -
  have "a smod b - a = - (a sdiv b * b)"
    using sdiv_mult_smod_eq [of a b] by simp
  then show ?thesis by simp
qed

text \<open>
  Claim C1. For every \<^verbatim>\<open>int\<close> value \<open>a\<close> and every \<^verbatim>\<open>int\<close> value \<open>base > 0\<close>,
  \<open>eucmodi a base\<close> returns a value \<open>r\<close> with \<open>0 \<le> r < base\<close> that is congruent to \<open>a\<close>
  modulo \<open>base\<close>.
\<close>

theorem eucmodi_range_cong:
  assumes "is_int a" and "is_int base" and "0 < base"
  shows "\<exists>r. eucmodi a base = Some r \<and> 0 \<le> r \<and> r < base \<and> is_int r
           \<and> base dvd (r - a) \<and> r = a mod base"
proof -
  let ?m = "a smod base"
  have rem: "c_rem a base = Some ?m"
    using assms(3) by (simp add: c_rem_def)
  have lo: "- base < ?m" and hi: "?m < base"
    using smod_pos_base_bounds [OF assms(3)] by auto
  have cong: "base dvd (?m - a)"
    by (rule smod_cong_base)
  show ?thesis
  proof (cases "0 \<le> ?m")
    case True
    have res: "eucmodi a base = Some ?m"
      using rem True by (simp add: eucmodi_def)
    have rng: "is_int ?m"
      using True hi assms(2) by (simp add: is_int_def INT_MIN_def INT_MAX_def)
    have eq: "?m mod base = a mod base"
      using cong by (metis mod_eq_dvd_iff)
    have triv: "?m mod base = ?m"
      by (rule mod_pos_pos_trivial) (use True hi in auto)
    have "?m = a mod base"
      by (rule trans [OF triv [symmetric] eq])
    with res True hi rng cong show ?thesis by simp
  next
    case False
    have rng: "is_int (?m + base)"
      using False lo assms(2) by (simp add: is_int_def INT_MIN_def INT_MAX_def)
    then have res: "eucmodi a base = Some (?m + base)"
      using rem False by (simp add: eucmodi_def c_add_def)
    have cong': "base dvd (?m + base - a)"
      using cong by (metis add_diff_eq add.commute dvd_add_triv_left_iff diff_add_eq)
    have eq: "(?m + base) mod base = a mod base"
      using cong' by (metis mod_eq_dvd_iff)
    have triv: "(?m + base) mod base = ?m + base"
      by (rule mod_pos_pos_trivial) (use False lo in auto)
    have "?m + base = a mod base"
      by (rule trans [OF triv [symmetric] eq])
    with res False lo rng cong' show ?thesis by simp
  qed
qed

theorem eucmodi_range_cong_witness:
  "is_int (- 7) \<and> is_int 3 \<and> (0::int) < 3 \<and> eucmodi (- 7) 3 = Some 2"
proof -
  have a: "is_int (- 7)" and b: "is_int 3"
    by (simp_all add: is_int_def INT_MIN_def INT_MAX_def)
  have c: "(0::int) < 3" by simp
  from eucmodi_range_cong [OF a b c]
  obtain r where "eucmodi (- 7) 3 = Some r" and "r = (- 7) mod 3" by blast
  then have "eucmodi (- 7) 3 = Some 2" by simp
  with a b c show ?thesis by simp
qed

lemma log2i_loop_between:
  assumes "2 ^ k \<le> n" and "n < 2 ^ Suc k" and "INT_MIN \<le> i" and "i + int k \<le> INT_MAX"
  shows "log2i_loop n i = Some (i + int k)"
  using assms
proof (induction k arbitrary: n i)
  case 0
  then have "n = 1" by simp
  then show ?case by (simp add: log2i_loop.simps [of 1])
next
  case (Suc k)
  have lo: "2 ^ k \<le> n div 2" using Suc.prems(1) by simp
  have hi: "n div 2 < 2 ^ Suc k" using Suc.prems(2) by simp
  have nz: "n div 2 \<noteq> 0" using lo by (smt (verit) zero_less_power)
  have rng: "is_int (i + 1)"
    using Suc.prems(3,4) by (simp add: is_int_def)
  have "log2i_loop (n div 2) (i + 1) = Some (i + 1 + int k)"
    by (rule Suc.IH [OF lo hi]) (use Suc.prems(3,4) in simp_all)
  then show ?case
    using nz rng by (subst log2i_loop.simps) (simp add: Let_def)
qed

lemma floor_log2_bounds:
  fixes n :: int
  assumes "1 \<le> n"
  defines "k \<equiv> nat \<lfloor>log 2 (real_of_int n)\<rfloor>"
  shows "\<lfloor>log 2 (real_of_int n)\<rfloor> = int k" and "2 ^ k \<le> n" and "n < 2 ^ Suc k"
proof -
  have nonneg: "0 \<le> \<lfloor>log 2 (real_of_int n)\<rfloor>"
    using assms(1) by simp
  then show fl: "\<lfloor>log 2 (real_of_int n)\<rfloor> = int k"
    by (simp add: k_def)
  have rn: "real (nat n) = real_of_int n"
    using assms(1) by simp
  have "\<lfloor>log (real 2) (real (nat n))\<rfloor> = int k"
    by (simp only: rn fl of_nat_numeral)
  then have "2 ^ k \<le> nat n \<and> nat n < 2 ^ (k + 1)"
    using assms(1) by (subst (asm) floor_log_nat_eq_powr_iff) simp_all
  then have "int (2 ^ k) \<le> int (nat n)" and "int (nat n) < int (2 ^ (k + 1))"
    by (simp_all only: of_nat_le_iff of_nat_less_iff)
  then show "2 ^ k \<le> n" and "n < 2 ^ Suc k"
    using assms(1) by simp_all
qed

text \<open>
  Claim C7. For every \<^verbatim>\<open>int\<close> value \<open>n \<ge> 1\<close> the loop of \<open>log2i\<close> terminates and returns
  \<open>\<lfloor>log\<^sub>2 n\<rfloor>\<close>, the \<open>r\<close> with \<open>2\<^sup>r \<le> n < 2\<^sup>r\<^sup>+\<^sup>1\<close>; the counter stays below 31, so it never
  overflows. In particular \<open>log2i 1 = 0\<close>, \<open>log2i 8 = 3\<close>, \<open>log2i 15 = 3\<close>, and
  \<open>log2i 0 = 0\<close>.
\<close>

theorem log2i_floor_log2:
  "(1 \<le> n \<and> is_int n \<longrightarrow>
      (\<exists>r. log2i n = Some r \<and> 0 \<le> r \<and> r \<le> 30 \<and> 2 ^ nat r \<le> n \<and> n < 2 ^ (nat r + 1)
           \<and> r = \<lfloor>log 2 (real_of_int n)\<rfloor>))
   \<and> log2i 1 = Some 0 \<and> log2i 8 = Some 3 \<and> log2i 15 = Some 3 \<and> log2i 0 = Some 0"
proof (intro conjI impI)
  assume a: "1 \<le> n \<and> is_int n"
  define k where "k = nat \<lfloor>log 2 (real_of_int n)\<rfloor>"
  have fl: "\<lfloor>log 2 (real_of_int n)\<rfloor> = int k" and lo: "2 ^ k \<le> n" and hi: "n < 2 ^ Suc k"
    using floor_log2_bounds [of n] a by (simp_all add: k_def)
  have "(2::int) ^ k < 2 ^ 31"
    using lo a unfolding is_int_def INT_MAX_def by linarith
  then have "k < 31"
    by (rule power_less_imp_less_exp [rotated]) simp
  then have k30: "k \<le> 30"
    by simp
  have "log2i_loop n 0 = Some (0 + int k)"
    by (rule log2i_loop_between [OF lo hi]) (use k30 in \<open>simp_all add: INT_MIN_def INT_MAX_def\<close>)
  then show "\<exists>r. log2i n = Some r \<and> 0 \<le> r \<and> r \<le> 30 \<and> 2 ^ nat r \<le> n \<and> n < 2 ^ (nat r + 1)
           \<and> r = \<lfloor>log 2 (real_of_int n)\<rfloor>"
    using lo hi fl k30 by (simp add: log2i_def)
next
  show "log2i 1 = Some 0"
    using log2i_loop_between [of 0 1 0] by (simp add: log2i_def INT_MIN_def INT_MAX_def)
  show "log2i 8 = Some 3"
    using log2i_loop_between [of 3 8 0] by (simp add: log2i_def INT_MIN_def INT_MAX_def)
  show "log2i 15 = Some 3"
    using log2i_loop_between [of 3 15 0] by (simp add: log2i_def INT_MIN_def INT_MAX_def)
  show "log2i 0 = Some 0"
    by (simp add: log2i_def log2i_loop.simps [of 0])
qed

theorem log2i_floor_log2_witness:
  "(1::int) \<le> 1000 \<and> is_int 1000 \<and> log2i 1000 = Some 9"
proof -
  have a: "(1::int) \<le> 1000 \<and> is_int 1000"
    by (simp add: is_int_def INT_MIN_def INT_MAX_def)
  from log2i_floor_log2 [of 1000] a
  obtain r where r: "log2i 1000 = Some r" "0 \<le> r" "2 ^ nat r \<le> (1000::int)" "(1000::int) < 2 ^ (nat r + 1)"
    by blast
  have "nat r < 10"
  proof (rule ccontr)
    assume "\<not> nat r < 10"
    then have "(2::int) ^ 10 \<le> 2 ^ nat r" by (intro power_increasing) simp_all
    with r(3) show False by simp
  qed
  moreover have "8 < nat r"
  proof (rule ccontr)
    assume "\<not> 8 < nat r"
    then have "(2::int) ^ (nat r + 1) \<le> 2 ^ 9" by (intro power_increasing) simp_all
    with r(4) show False by simp
  qed
  ultimately have "r = 9" using r(2) by simp
  with r(1) a show ?thesis by simp
qed

section \<open>Clamping\<close>




text \<open>
  Claim C10. \<open>clampf\<close> and \<open>clampi\<close> return \<open>min\<close> if \<open>x < min\<close>, otherwise \<open>max\<close> if
  \<open>x > max\<close>, otherwise \<open>x\<close>, whatever the order of \<open>min\<close> and \<open>max\<close>; the result is one of
  the three arguments, and \<open>clampf 5 10 0 = 10\<close>.
\<close>

theorem clamp_cases:
  "(x < mn \<longrightarrow> clampf x mn mx = mn)
   \<and> (\<not> x < mn \<and> x > mx \<longrightarrow> clampf x mn mx = mx)
   \<and> (\<not> x < mn \<and> \<not> x > mx \<longrightarrow> clampf x mn mx = x)
   \<and> clampf x mn mx \<in> {x, mn, mx}
   \<and> clampf 5 10 0 = 10
   \<and> (i < lo \<longrightarrow> clampi i lo hi = lo)
   \<and> (\<not> i < lo \<and> i > hi \<longrightarrow> clampi i lo hi = hi)
   \<and> (\<not> i < lo \<and> \<not> i > hi \<longrightarrow> clampi i lo hi = i)
   \<and> clampi i lo hi \<in> {i, lo, hi}
   \<and> clampi 5 10 0 = 10"
  by (simp add: clampf_def clampi_def)

theorem clamp_cases_witness:
  "(5::real) < 10 \<and> clampf 5 10 0 = 10 \<and> \<not> (15::real) < 10 \<and> (15::real) > 0 \<and> clampf 15 10 0 = 0
   \<and> \<not> (3::real) < 0 \<and> \<not> (3::real) > 10 \<and> clampf 3 0 10 = 3
   \<and> (5::int) < 10 \<and> clampi 5 10 0 = 10 \<and> \<not> (15::int) < 10 \<and> (15::int) > 0 \<and> clampi 15 10 0 = 0
   \<and> \<not> (3::int) < 0 \<and> \<not> (3::int) > 10 \<and> clampi 3 0 10 = 3"
  using clamp_cases [of 5 10 0 5 10 0] clamp_cases [of 15 10 0 15 10 0] clamp_cases [of 3 0 10 3 0 10]
  by simp

text \<open>
  Claim C6. \<open>clamp2f x min max\<close> equals \<open>clamp2f x max min\<close>: it clamps \<open>x\<close> between the
  smaller and the larger of the two bounds, so its result lies between them whatever
  their order.
\<close>

theorem clamp2f_order_independent:
  "clamp2f x mn mx = clamp2f x mx mn
   \<and> clamp2f x mn mx = clampf x (min mn mx) (max mn mx)
   \<and> min mn mx \<le> clamp2f x mn mx \<and> clamp2f x mn mx \<le> max mn mx
   \<and> clamp2f x 10 0 = clamp2f x 0 10"
  by (simp add: clamp2f_def clampf_def fminf_def fmaxf_def min_def max_def)

theorem clamp2f_order_independent_witness:
  "clamp2f 15 10 0 = 10 \<and> clamp2f 15 0 10 = 10 \<and> clamp2f (- 3) 10 0 = 0 \<and> clamp2f 4 10 0 = 4"
  using clamp2f_order_independent [of 15 10 0] clamp2f_order_independent [of "- 3" 10 0]
    clamp2f_order_independent [of 4 10 0]
  by (simp add: clampf_def)

section \<open>Complex multiplication\<close>

text \<open>
  Claim C9. With two distinct result addresses, \<open>cmultf\<close> leaves
  \<open>ar * br - ai * bi\<close> at \<open>cr\<close> and \<open>ar * bi + ai * br\<close> at \<open>ci\<close> and changes no other address;
  \<open>(3, 4) * (1, 2) = (-5, 10)\<close>; and the call that writes the product over its first operand
  leaves there the values that a call with fresh result addresses leaves at those.
\<close>

theorem cmultf_result:
  "(cr \<noteq> ci \<longrightarrow>
      cmultf m cr ci ar ai br bi cr = ar * br - ai * bi
      \<and> cmultf m cr ci ar ai br bi ci = ar * bi + ai * br
      \<and> (\<forall>p. p \<noteq> cr \<and> p \<noteq> ci \<longrightarrow> cmultf m cr ci ar ai br bi p = m p))
   \<and> (cr \<noteq> ci \<longrightarrow> cmultf m cr ci 3 4 1 2 cr = - 5 \<and> cmultf m cr ci 3 4 1 2 ci = 10)
   \<and> (pr \<noteq> pim \<and> cr \<noteq> ci \<longrightarrow>
        cmultf_inplace m pr pim br bi pr = cmultf m cr ci (m pr) (m pim) br bi cr
        \<and> cmultf_inplace m pr pim br bi pim = cmultf m cr ci (m pr) (m pim) br bi ci)"
  by (simp add: cmultf_def cmultf_inplace_def Let_def)

theorem cmultf_result_witness:
  "(0::nat) \<noteq> 1 \<and> (2::nat) \<noteq> 3
   \<and> cmultf_inplace ((\<lambda>_. 0)(0 := 3, 1 := 4)) 0 1 1 2 0 = - 5
   \<and> cmultf_inplace ((\<lambda>_. 0)(0 := 3, 1 := 4)) 0 1 1 2 1 = 10
   \<and> cmultf ((\<lambda>_. 0)(0 := 3, 1 := 4)) 2 3 3 4 1 2 2 = - 5
   \<and> cmultf ((\<lambda>_. 0)(0 := 3, 1 := 4)) 2 3 3 4 1 2 3 = 10"
  using cmultf_result [of 2 3 "(\<lambda>_. 0)(0 := 3, 1 := 4)" 3 4 1 2 0 1]
  by simp

section \<open>Array interpolation: properties\<close>

lemma float_to_int_floor:
  assumes "0 \<le> x" and "\<lfloor>x\<rfloor> < INT_MAX"
  shows "float_to_int x = Inr \<lfloor>x\<rfloor>"
proof -
  have "0 \<le> \<lfloor>x\<rfloor>" using assms(1) by simp
  then have "is_int \<lfloor>x\<rfloor>"
    using assms(2) by (simp add: is_int_def INT_MIN_def)
  then show ?thesis
    using assms(1) by (simp add: float_to_int_def)
qed

lemma interpf_Inr:
  assumes "0 \<le> x" and "\<lfloor>x\<rfloor> < INT_MAX" and "\<lfloor>x\<rfloor> + 2 \<le> int (length p)"
  shows "interpf p x = Inr (crossf (p ! nat \<lfloor>x\<rfloor>) (p ! (nat \<lfloor>x\<rfloor> + 1)) (x - of_int \<lfloor>x\<rfloor>))"
proof -
  have nn: "0 \<le> \<lfloor>x\<rfloor>" using assms(1) by simp
  have conv: "float_to_int x = Inr \<lfloor>x\<rfloor>"
    by (rule float_to_int_floor [OF assms(1,2)])
  have l0: "load p \<lfloor>x\<rfloor> = Inr (p ! nat \<lfloor>x\<rfloor>)"
    using nn assms(3) by (simp add: load_def)
  have add: "c_add \<lfloor>x\<rfloor> 1 = Some (\<lfloor>x\<rfloor> + 1)"
    using nn assms(2) by (simp add: c_add_def is_int_def INT_MIN_def)
  have "nat (\<lfloor>x\<rfloor> + 1) = nat \<lfloor>x\<rfloor> + 1"
    using nn by (simp add: nat_add_distrib)
  then have l1: "load p (\<lfloor>x\<rfloor> + 1) = Inr (p ! (nat \<lfloor>x\<rfloor> + 1))"
    using nn assms(3) by (simp add: load_def)
  show ?thesis
    by (simp add: interpf_def conv l0 add l1 Let_def)
qed

text \<open>
  Claim C3, amended. For every array \<open>p\<close> and every index \<open>x \<ge> 0\<close> whose integer part
  \<open>i = \<lfloor>x\<rfloor>\<close> is below \<open>INT_MAX\<close>, if \<open>p\<close> has at least \<open>i + 2\<close> elements then \<open>interpf p x\<close>
  returns \<open>crossf (p[i]) (p[i+1]) (x - i)\<close>; no read fails, and the result is the same for
  every array that agrees with \<open>p\<close> at the indices \<open>i\<close> and \<open>i + 1\<close>.
\<close>

theorem interpf_reads_in_bounds:
  "0 \<le> x \<and> \<lfloor>x\<rfloor> < INT_MAX \<and> \<lfloor>x\<rfloor> + 2 \<le> int (length p) \<longrightarrow>
     interpf p x = Inr (crossf (p ! nat \<lfloor>x\<rfloor>) (p ! (nat \<lfloor>x\<rfloor> + 1)) (x - of_int \<lfloor>x\<rfloor>))
     \<and> interpf p x \<noteq> Inl OutOfBounds
     \<and> (\<forall>q. \<lfloor>x\<rfloor> + 2 \<le> int (length q) \<and> q ! nat \<lfloor>x\<rfloor> = p ! nat \<lfloor>x\<rfloor>
              \<and> q ! (nat \<lfloor>x\<rfloor> + 1) = p ! (nat \<lfloor>x\<rfloor> + 1)
            \<longrightarrow> interpf q x = interpf p x)"
proof (intro impI conjI allI)
  assume a: "0 \<le> x \<and> \<lfloor>x\<rfloor> < INT_MAX \<and> \<lfloor>x\<rfloor> + 2 \<le> int (length p)"
  then show r: "interpf p x = Inr (crossf (p ! nat \<lfloor>x\<rfloor>) (p ! (nat \<lfloor>x\<rfloor> + 1)) (x - of_int \<lfloor>x\<rfloor>))"
    by (simp add: interpf_Inr)
  then show "interpf p x \<noteq> Inl OutOfBounds" by simp
  fix q
  assume q: "\<lfloor>x\<rfloor> + 2 \<le> int (length q) \<and> q ! nat \<lfloor>x\<rfloor> = p ! nat \<lfloor>x\<rfloor>
              \<and> q ! (nat \<lfloor>x\<rfloor> + 1) = p ! (nat \<lfloor>x\<rfloor> + 1)"
  then have "interpf q x = Inr (crossf (q ! nat \<lfloor>x\<rfloor>) (q ! (nat \<lfloor>x\<rfloor> + 1)) (x - of_int \<lfloor>x\<rfloor>))"
    using a by (simp add: interpf_Inr)
  then show "interpf q x = interpf p x"
    using r q by simp
qed

theorem interpf_reads_in_bounds_witness:
  "(0::real) \<le> 3 / 2 \<and> \<lfloor>3 / 2 :: real\<rfloor> < INT_MAX \<and> \<lfloor>3 / 2 :: real\<rfloor> + 2 \<le> int (length [10, 20, 40 :: real])
   \<and> interpf [10, 20, 40] (3 / 2) = Inr 30"
proof -
  have fl: "\<lfloor>3 / 2 :: real\<rfloor> = 1" by simp
  have h: "(0::real) \<le> 3 / 2 \<and> \<lfloor>3 / 2 :: real\<rfloor> < INT_MAX
           \<and> \<lfloor>3 / 2 :: real\<rfloor> + 2 \<le> int (length [10, 20, 40 :: real])"
    by (simp add: fl INT_MAX_def)
  have "interpf [10, 20, 40] (3 / 2) = Inr 30"
    using interpf_reads_in_bounds [of "3 / 2" "[10, 20, 40]"] h
    by (simp add: fl crossf_def)
  with h show ?thesis by simp
qed

text \<open>
  Without the bound on \<open>\<lfloor>x\<rfloor>\<close> the statement fails: at \<open>x = 2\<^sup>3\<^sup>1\<close>, with an array of
  \<open>2\<^sup>3\<^sup>1 + 2\<close> elements, the conversion \<^verbatim>\<open>int xi = x\<close> has no defined result.
\<close>

theorem interpf_index_overflow_counterexample:
  "(0::real) \<le> 2147483648
   \<and> \<lfloor>2147483648 :: real\<rfloor> + 2 \<le> int (length (replicate 2147483650 (0::real)))
   \<and> interpf (replicate 2147483650 0) 2147483648 = Inl Undefined"
  by (simp add: interpf_def float_to_int_def is_int_def INT_MAX_def INT_MIN_def)

text \<open>An array of only \<open>\<lfloor>x\<rfloor> + 1\<close> elements is too short: the read of \<^verbatim>\<open>p[xi+1]\<close> fails.\<close>

lemma interpf_short_array:
  "interpf [1] 0 = Inl OutOfBounds"
  by (simp add: interpf_def float_to_int_def is_int_def INT_MAX_def INT_MIN_def load_def c_add_def)

section \<open>Rectangles: properties\<close>















section \<open>The sign of a float: properties\<close>

lemma bit_sign_mask:
  "bit (0x80000000 :: float32) n \<longleftrightarrow> n = 31"
proof -
  have m: "(0x80000000 :: float32) = 2 ^ 31" by simp
  have "bit ((2 :: float32) ^ 31) n \<longleftrightarrow> possible_bit TYPE(float32) n \<and> n = 31"
    by (rule bit_exp_iff)
  moreover have "possible_bit TYPE(float32) 31" by simp
  ultimately have "bit ((2 :: float32) ^ 31) n \<longleftrightarrow> n = 31" by blast
  then show ?thesis by (simp only: m)
qed

lemma and_sign_mask_clear:
  fixes x :: float32
  assumes "\<not> bit x 31"
  shows "x AND 0x80000000 = 0"
proof (rule bit_eqI)
  fix n
  have "bit (x AND 0x80000000) n \<longleftrightarrow> bit x n \<and> n = 31"
    by (simp only: bit_and_iff bit_sign_mask)
  then show "bit (x AND 0x80000000) n \<longleftrightarrow> bit (0 :: float32) n"
    using assms by auto
qed

lemma and_sign_mask_set:
  fixes x :: float32
  assumes "bit x 31"
  shows "x AND 0x80000000 = 0x80000000"
proof (rule bit_eqI)
  fix n
  have "bit (x AND 0x80000000) n \<longleftrightarrow> bit x n \<and> n = 31"
    by (simp only: bit_and_iff bit_sign_mask)
  then show "bit (x AND 0x80000000) n \<longleftrightarrow> bit (0x80000000 :: float32) n"
    using assms by (auto simp only: bit_sign_mask)
qed

lemma sgnf_by_sign:
  "sgnf x = (if f32_sign x then f32_neg_one else f32_one)"
  by (simp add: sgnf_def copysignf_def f32_sign_def f32_one_def f32_neg_one_def
      and_sign_mask_clear and_sign_mask_set)

lemma f32_key_sign:
  "f32_sign x \<Longrightarrow> f32_key x \<le> 0" "\<not> f32_sign x \<Longrightarrow> 0 \<le> f32_key x"
  by (simp_all add: f32_key_def)

lemma f32_key_pos_zero: "f32_key f32_pos_zero = 0"
  by (simp add: f32_key_def f32_pos_zero_def f32_sign_def)

lemma f32_value_consts:
  "f32_value f32_one = 1" "f32_value f32_neg_one = - 1"
  "f32_value f32_pos_zero = 0" "f32_value f32_neg_zero = 0"
  by (simp_all add: f32_value_def f32_one_def f32_neg_one_def f32_pos_zero_def f32_neg_zero_def
      f32_exponent_def f32_fraction_def f32_sign_def Let_def)

text \<open>
  Claim C8. \<open>sgnf x\<close> is the pattern of \<open>1.0\<close> when \<open>x\<close> is greater than zero or is the
  positive zero, and the pattern of \<open>-1.0\<close> when \<open>x\<close> is less than zero or is the negative
  zero; so \<open>sgnf (-0.0) = -1.0\<close> and \<open>sgnf 0.0 = 1.0\<close>, the two zeros being different
  patterns of the same number.
\<close>

theorem sgnf_signed_zero:
  "(f32_less f32_pos_zero x \<or> x = f32_pos_zero \<longrightarrow> sgnf x = f32_one)
   \<and> (f32_less x f32_pos_zero \<or> x = f32_neg_zero \<longrightarrow> sgnf x = f32_neg_one)
   \<and> sgnf f32_neg_zero = f32_neg_one \<and> sgnf f32_pos_zero = f32_one
   \<and> f32_value f32_one = 1 \<and> f32_value f32_neg_one = - 1
   \<and> f32_value f32_pos_zero = 0 \<and> f32_value f32_neg_zero = 0
   \<and> f32_pos_zero \<noteq> f32_neg_zero \<and> f32_one \<noteq> f32_neg_one"
proof (intro conjI impI)
  assume "f32_less f32_pos_zero x \<or> x = f32_pos_zero"
  then have "\<not> f32_sign x"
  proof
    assume "f32_less f32_pos_zero x"
    then have "0 < f32_key x" by (simp add: f32_less_def f32_key_pos_zero)
    then show ?thesis using f32_key_sign(1) [of x] by auto
  next
    assume "x = f32_pos_zero"
    then show ?thesis by (simp add: f32_pos_zero_def f32_sign_def)
  qed
  then show "sgnf x = f32_one" by (simp add: sgnf_by_sign)
next
  assume "f32_less x f32_pos_zero \<or> x = f32_neg_zero"
  then have "f32_sign x"
  proof
    assume "f32_less x f32_pos_zero"
    then have "f32_key x < 0" by (simp add: f32_less_def f32_key_pos_zero)
    then show ?thesis using f32_key_sign(2) [of x] by auto
  next
    assume "x = f32_neg_zero"
    then show ?thesis by (simp add: f32_neg_zero_def f32_sign_def)
  qed
  then show "sgnf x = f32_neg_one" by (simp add: sgnf_by_sign)
next
  show "sgnf f32_neg_zero = f32_neg_one"
    by (simp add: sgnf_by_sign f32_neg_zero_def f32_sign_def)
  show "sgnf f32_pos_zero = f32_one"
    by (simp add: sgnf_by_sign f32_pos_zero_def f32_sign_def)
  show "f32_pos_zero \<noteq> f32_neg_zero"
    by (simp add: f32_pos_zero_def f32_neg_zero_def)
  show "f32_one \<noteq> f32_neg_one"
    by (simp add: f32_one_def f32_neg_one_def)
qed (simp_all add: f32_value_consts)

text \<open>The patterns \<open>0x40200000\<close> and \<open>0xC0200000\<close> are \<open>2.5\<close> and \<open>-2.5\<close>.\<close>

theorem sgnf_signed_zero_witness:
  "f32_less f32_pos_zero 0x40200000 \<and> sgnf 0x40200000 = f32_one
   \<and> f32_less 0xC0200000 f32_pos_zero \<and> sgnf 0xC0200000 = f32_neg_one
   \<and> f32_value 0x40200000 = 5 / 2 \<and> f32_value 0xC0200000 = - 5 / 2"
proof -
  have p: "f32_less f32_pos_zero 0x40200000"
    by (simp add: f32_less_def f32_is_nan_def f32_exponent_def f32_fraction_def f32_key_def
        f32_sign_def f32_pos_zero_def)
  have n: "f32_less 0xC0200000 f32_pos_zero"
    by (simp add: f32_less_def f32_is_nan_def f32_exponent_def f32_fraction_def f32_key_def
        f32_sign_def f32_pos_zero_def)
  have v: "f32_value 0x40200000 = 5 / 2 \<and> f32_value 0xC0200000 = - 5 / 2"
    by (simp add: f32_value_def f32_exponent_def f32_fraction_def f32_sign_def Let_def)
  from sgnf_signed_zero [of "0x40200000"] p have "sgnf 0x40200000 = f32_one" by blast
  moreover from sgnf_signed_zero [of "0xC0200000"] n have "sgnf 0xC0200000 = f32_neg_one" by blast
  ultimately show ?thesis using p n v by simp
qed

end
